theory Spec2Isabelle
  imports Complex_Main
begin

section \<open>DCGAN generator and discriminator builders (torchgan/models/dcgan.py)\<close>

subsection \<open>Python integers\<close>

text \<open>
  \<^verbatim>\<open>int.bit_length()\<close>: the number of binary digits of the absolute value, 0 for 0.
\<close>

fun bits :: "nat \<Rightarrow> nat" where
  "bits n = (if n = 0 then 0 else Suc (bits (n div 2)))"

declare bits.simps [simp del]

definition bit_length :: "int \<Rightarrow> nat" where
  "bit_length n = bits (nat \<bar>n\<bar>)"

text \<open>
  Line 33 and line 93 of dcgan.py: \<^verbatim>\<open>num_repeats = out_size.bit_length() - 4\<close>
  (the same expression on \<^verbatim>\<open>in_size\<close> in the discriminator).
\<close>

definition num_repeats :: "int \<Rightarrow> int" where
  "num_repeats sz = int (bit_length sz) - 4"

text \<open>
  \<^verbatim>\<open>math.log2\<close> applied to a Python int. The interpreter converts the int to the
  nearest double, ties to even (\<^verbatim>\<open>PyLong_AsDouble\<close>), and hands that double to the C
  library's \<^verbatim>\<open>log2\<close>. The conversion is integer arithmetic and is modelled exactly for
  non-negative ints within the range of a double (ints below \<open>2 ^ 1024\<close>; the value of
  the resulting double is again an integer). Beyond that range the interpreter computes
  the logarithm from mantissa and exponent, which on a power of two gives the exponent
  as well. The C library function is not part of the repository: it is the parameter
  \<open>clog2\<close>, a function from doubles to doubles, both read as reals.
\<close>

definition long_as_double :: "int \<Rightarrow> int" where
  "long_as_double n =
     (let b = bit_length n in
      if b \<le> 53 then n
      else
        let sh = b - 53;
            q = n div 2 ^ sh;
            r = n mod 2 ^ sh;
            half = 2 ^ (sh - 1)
        in (if half < r \<or> (r = half \<and> odd q) then q + 1 else q) * 2 ^ sh)"

definition math_log2 :: "(real \<Rightarrow> real) \<Rightarrow> int \<Rightarrow> real" where
  "math_log2 clog2 n = clog2 (real_of_int (long_as_double n))"

text \<open>
  The one assumption the theorems below make about the parameter: on an exact power of
  two the result is the exponent, exactly. That result is itself a double, and the C
  libraries in use return it.
\<close>

definition exact_on_powers :: "(real \<Rightarrow> real) \<Rightarrow> bool" where
  "exact_on_powers clog2 = (\<forall>k::nat. clog2 (2 ^ k) = real k)"

subsection \<open>Layers\<close>

text \<open>
  The layer objects of \<^verbatim>\<open>torch.nn\<close> that the two constructors assemble. The arguments of
  the convolutions are, in the order of the source: input channels, output channels,
  kernel size, stride, padding, bias.
\<close>

datatype activation = LeakyReLU rat | Tanh | Sigmoid | UserModule string

datatype module =
    ConvTranspose2d int int int int int bool
  | Conv2d int int int int int bool
  | BatchNorm2d int
  | Nonlinearity activation
  | Sequential "module list"

datatype error = ConfigError | IndexError | ShapeError

subsection \<open>DCGANGenerator\<close>

text \<open>
  Modelled from the spec: the base classes \<^verbatim>\<open>Generator\<close> and \<^verbatim>\<open>Discriminator\<close>
  (torchgan/models/model.py) are not among the sources. They store the encoding
  dimensions (\<^verbatim>\<open>encoding_dims\<close>) and the input channels (\<^verbatim>\<open>input_dims\<close>) and provide the
  weight initialiser; \<^verbatim>\<open>label_type\<close> is handed to them and plays no part in the
  constructors below.
\<close>

record generator =
  gen_encoding_dims :: int
  gen_ch :: int
  gen_n :: int
  gen_model :: module

text \<open>The loop of lines 45 to 49 (with batch normalisation), carrying \<open>model\<close> and \<open>d\<close>.\<close>

fun gen_loop_bn :: "bool \<Rightarrow> activation \<Rightarrow> nat \<Rightarrow> module list \<Rightarrow> int \<Rightarrow> module list \<times> int" where
  "gen_loop_bn use_bias nl 0 model d = (model, d)"
| "gen_loop_bn use_bias nl (Suc i) model d =
     gen_loop_bn use_bias nl i
       (model @ [Sequential [ConvTranspose2d d (d div 2) 4 2 1 use_bias,
                             BatchNorm2d (d div 2), Nonlinearity nl]])
       (d div 2)"

text \<open>The loop of lines 53 to 56 (without batch normalisation).\<close>

fun gen_loop_plain :: "bool \<Rightarrow> activation \<Rightarrow> nat \<Rightarrow> module list \<Rightarrow> int \<Rightarrow> module list \<times> int" where
  "gen_loop_plain use_bias nl 0 model d = (model, d)"
| "gen_loop_plain use_bias nl (Suc i) model d =
     gen_loop_plain use_bias nl i
       (model @ [Sequential [ConvTranspose2d d (d div 2) 4 2 1 use_bias, Nonlinearity nl]])
       (d div 2)"

text \<open>
  \<^verbatim>\<open>DCGANGenerator.__init__\<close>, lines 28 to 60. Python's \<^verbatim>\<open>or\<close> evaluates the
  logarithm only for sizes of at least 16, where it is defined. The call of the weight
  initialiser at the end does not change the structure of the model.
\<close>

definition DCGANGenerator_init ::
  "(real \<Rightarrow> real) \<Rightarrow> int \<Rightarrow> int \<Rightarrow> int \<Rightarrow> int \<Rightarrow> bool \<Rightarrow> activation option \<Rightarrow> activation option
     \<Rightarrow> error + generator" where
  "DCGANGenerator_init clog2 encoding_dims out_size out_channels step_channels batchnorm
       nonlinearity last_nonlinearity =
     (if out_size < 16
         \<or> real_of_int \<lceil>math_log2 clog2 out_size\<rceil> \<noteq> math_log2 clog2 out_size
      then Inl ConfigError
      else
        let num_rep = num_repeats out_size;
            use_bias = (\<not> batchnorm);
            nl = (case nonlinearity of None \<Rightarrow> LeakyReLU (2 / 10) | Some a \<Rightarrow> a);
            last_nl = (case last_nonlinearity of None \<Rightarrow> Tanh | Some a \<Rightarrow> a);
            d = step_channels * 2 ^ nat num_rep;
            (model, d') =
              (if batchnorm
               then gen_loop_bn use_bias nl (nat num_rep)
                      [Sequential [ConvTranspose2d encoding_dims d 4 1 0 use_bias,
                                   BatchNorm2d d, Nonlinearity nl]] d
               else gen_loop_plain use_bias nl (nat num_rep)
                      [Sequential [ConvTranspose2d encoding_dims d 4 1 0 use_bias,
                                   Nonlinearity nl]] d)
        in Inr \<lparr> gen_encoding_dims = encoding_dims, gen_ch = out_channels,
                 gen_n = step_channels,
                 gen_model = Sequential (model @
                   [Sequential [ConvTranspose2d d' out_channels 4 2 1 True,
                                Nonlinearity last_nl]]) \<rparr>)"

subsection \<open>DCGANDiscriminator\<close>

record discriminator =
  disc_input_dims :: int
  disc_n :: int
  disc_model :: module

text \<open>The loop of lines 102 to 106 (with batch normalisation).\<close>

fun disc_loop_bn :: "bool \<Rightarrow> activation \<Rightarrow> nat \<Rightarrow> module list \<Rightarrow> int \<Rightarrow> module list \<times> int" where
  "disc_loop_bn use_bias nl 0 model d = (model, d)"
| "disc_loop_bn use_bias nl (Suc i) model d =
     disc_loop_bn use_bias nl i
       (model @ [Sequential [Conv2d d (d * 2) 4 2 1 use_bias,
                             BatchNorm2d (d * 2), Nonlinearity nl]])
       (d * 2)"

text \<open>The loop of lines 108 to 111 (without batch normalisation).\<close>

fun disc_loop_plain :: "bool \<Rightarrow> activation \<Rightarrow> nat \<Rightarrow> module list \<Rightarrow> int \<Rightarrow> module list \<times> int" where
  "disc_loop_plain use_bias nl 0 model d = (model, d)"
| "disc_loop_plain use_bias nl (Suc i) model d =
     disc_loop_plain use_bias nl i
       (model @ [Sequential [Conv2d d (d * 2) 4 2 1 use_bias, Nonlinearity nl]])
       (d * 2)"

text \<open>
  \<^verbatim>\<open>DCGANDiscriminator.__init__\<close>, lines 88 to 115. The base class stores
  \<^verbatim>\<open>in_channels\<close> as \<^verbatim>\<open>input_dims\<close>, which line 100 reads back.
\<close>

definition DCGANDiscriminator_init ::
  "(real \<Rightarrow> real) \<Rightarrow> int \<Rightarrow> int \<Rightarrow> int \<Rightarrow> bool \<Rightarrow> activation option \<Rightarrow> activation option
     \<Rightarrow> error + discriminator" where
  "DCGANDiscriminator_init clog2 in_size in_channels step_channels batchnorm
       nonlinearity last_nonlinearity =
     (if in_size < 16
         \<or> real_of_int \<lceil>math_log2 clog2 in_size\<rceil> \<noteq> math_log2 clog2 in_size
      then Inl ConfigError
      else
        let num_rep = num_repeats in_size;
            use_bias = (\<not> batchnorm);
            nl = (case nonlinearity of None \<Rightarrow> LeakyReLU (2 / 10) | Some a \<Rightarrow> a);
            last_nl = (case last_nonlinearity of None \<Rightarrow> LeakyReLU (2 / 10) | Some a \<Rightarrow> a);
            first = [Sequential [Conv2d in_channels step_channels 4 2 1 True,
                                 Nonlinearity nl]];
            (model, d') =
              (if batchnorm
               then disc_loop_bn use_bias nl (nat num_rep) first step_channels
               else disc_loop_plain use_bias nl (nat num_rep) first step_channels)
        in Inr \<lparr> disc_input_dims = in_channels, disc_n = step_channels,
                 disc_model = Sequential (model @
                   [Sequential [Conv2d d' 1 4 1 0 use_bias, Nonlinearity last_nl]]) \<rparr>)"

subsection \<open>Forward evaluation, at the level of tensor shapes\<close>

text \<open>
  The layers themselves belong to the framework. Their effect on the shape of a batched
  tensor \<open>[batch, channels, height, width]\<close> follows the framework's documented rules:
  a transposed convolution takes a side \<open>h\<close> to \<open>(h - 1) * stride - 2 * padding + kernel\<close>,
  a convolution to \<open>(h + 2 * padding - kernel) div stride + 1\<close>; both check the channel
  count of their input; normalisation checks it too and keeps the shape; an activation
  keeps the shape.
\<close>

type_synonym shape = "int list"

definition conv_transpose_out :: "int \<Rightarrow> int \<Rightarrow> int \<Rightarrow> int \<Rightarrow> int" where
  "conv_transpose_out h k s p = (h - 1) * s - 2 * p + k"

definition conv_out :: "int \<Rightarrow> int \<Rightarrow> int \<Rightarrow> int \<Rightarrow> int" where
  "conv_out h k s p = (h + 2 * p - k) div s + 1"

fun forward :: "module \<Rightarrow> shape \<Rightarrow> error + shape"
  and forward_list :: "module list \<Rightarrow> shape \<Rightarrow> error + shape" where
  "forward (ConvTranspose2d cin cout k s p b) x =
     (case x of
        [n, c, h, w] \<Rightarrow>
          if c = cin \<and> 0 < conv_transpose_out h k s p \<and> 0 < conv_transpose_out w k s p
          then Inr [n, cout, conv_transpose_out h k s p, conv_transpose_out w k s p]
          else Inl ShapeError
      | _ \<Rightarrow> Inl ShapeError)"
| "forward (Conv2d cin cout k s p b) x =
     (case x of
        [n, c, h, w] \<Rightarrow>
          if c = cin \<and> k \<le> h + 2 * p \<and> k \<le> w + 2 * p
          then Inr [n, cout, conv_out h k s p, conv_out w k s p]
          else Inl ShapeError
      | _ \<Rightarrow> Inl ShapeError)"
| "forward (BatchNorm2d f) x =
     (case x of
        [n, c, h, w] \<Rightarrow> if c = f then Inr x else Inl ShapeError
      | _ \<Rightarrow> Inl ShapeError)"
| "forward (Nonlinearity a) x = Inr x"
| "forward (Sequential ms) x = forward_list ms x"
| "forward_list [] x = Inr x"
| "forward_list (m # ms) x =
     (case forward m x of Inl e \<Rightarrow> Inl e | Inr y \<Rightarrow> forward_list ms y)"

text \<open>
  \<^verbatim>\<open>Tensor.view\<close> on shapes: at most one requested dimension may be \<open>-1\<close>, which is
  then inferred from the number of elements.
\<close>

definition view :: "shape \<Rightarrow> int list \<Rightarrow> error + shape" where
  "view x shp =
     (let numel = prod_list x;
          newsize = prod_list (filter (\<lambda>d. d \<noteq> - 1) shp)
      in if list_ex (\<lambda>d. d < - 1) shp \<or> 1 < length (filter (\<lambda>d. d = - 1) shp)
         then Inl ShapeError
         else if list_ex (\<lambda>d. d = - 1) shp
         then (if 0 < newsize \<and> numel mod newsize = 0
               then Inr (map (\<lambda>d. if d = - 1 then numel div newsize else d) shp)
               else Inl ShapeError)
         else if numel = newsize then Inr shp else Inl ShapeError)"

text \<open>\<^verbatim>\<open>DCGANGenerator.forward\<close>, lines 62 to 64.\<close>

definition DCGANGenerator_forward :: "generator \<Rightarrow> shape \<Rightarrow> error + shape" where
  "DCGANGenerator_forward g x =
     (if length x < 2 then Inl IndexError
      else case view x [- 1, x ! 1, 1, 1] of
             Inl e \<Rightarrow> Inl e
           | Inr y \<Rightarrow> forward (gen_model g) y)"

text \<open>\<^verbatim>\<open>DCGANDiscriminator.forward\<close>, lines 117 to 119.\<close>

definition DCGANDiscriminator_forward :: "discriminator \<Rightarrow> shape \<Rightarrow> error + shape" where
  "DCGANDiscriminator_forward m x =
     (case forward (disc_model m) x of
        Inl e \<Rightarrow> Inl e
      | Inr y \<Rightarrow> (if length y < 1 then Inl IndexError else view y [y ! 0]))"

subsection \<open>Vocabulary of the specification\<close>

text \<open>
  A valid configuration, in the words of the specification's data model: positive
  encoding dimensions, channel count and step channels, and a spatial size that is a
  power of two and at least 16.
\<close>

definition power_of_two :: "int \<Rightarrow> bool" where
  "power_of_two s = (\<exists>k::nat. s = 2 ^ k)"

definition valid_config :: "int \<Rightarrow> int \<Rightarrow> int \<Rightarrow> int \<Rightarrow> bool" where
  "valid_config encoding_dims spatial_size channel_count step_channels =
     (0 < encoding_dims \<and> 0 < channel_count \<and> 0 < step_channels
      \<and> 16 \<le> spatial_size \<and> power_of_two spatial_size)"

text \<open>
  One layer of the specification is one inner \<open>Sequential\<close> of the source: a
  convolution, an optional normalisation and an activation. The next two functions
  write such a layer down; the accessors after them read one.
\<close>

definition up_layer :: "int \<Rightarrow> int \<Rightarrow> int \<Rightarrow> int \<Rightarrow> bool \<Rightarrow> bool \<Rightarrow> activation \<Rightarrow> module" where
  "up_layer cin cout stride padding bias bn act =
     Sequential ([ConvTranspose2d cin cout 4 stride padding bias]
                 @ (if bn then [BatchNorm2d cout] else [])
                 @ [Nonlinearity act])"

definition down_layer :: "int \<Rightarrow> int \<Rightarrow> int \<Rightarrow> int \<Rightarrow> bool \<Rightarrow> bool \<Rightarrow> activation \<Rightarrow> module" where
  "down_layer cin cout stride padding bias bn act =
     Sequential ([Conv2d cin cout 4 stride padding bias]
                 @ (if bn then [BatchNorm2d cout] else [])
                 @ [Nonlinearity act])"

fun layers_of :: "module \<Rightarrow> module list" where
  "layers_of (Sequential ms) = ms"
| "layers_of m = [m]"

fun layer_out_channels :: "module \<Rightarrow> int option" where
  "layer_out_channels (Sequential (ConvTranspose2d cin cout k s p b # ms)) = Some cout"
| "layer_out_channels (Sequential (Conv2d cin cout k s p b # ms)) = Some cout"
| "layer_out_channels m = None"

fun layer_bias :: "module \<Rightarrow> bool option" where
  "layer_bias (Sequential (ConvTranspose2d cin cout k s p b # ms)) = Some b"
| "layer_bias (Sequential (Conv2d cin cout k s p b # ms)) = Some b"
| "layer_bias m = None"

fun layer_activation :: "module \<Rightarrow> activation option" where
  "layer_activation (Sequential ms) =
     (if ms = [] then None
      else case last ms of Nonlinearity a \<Rightarrow> Some a | _ \<Rightarrow> None)"
| "layer_activation m = None"

text \<open>The layers of the model a constructor call has built (none after an error).\<close>

definition generator_layers :: "error + generator \<Rightarrow> module list" where
  "generator_layers r = (case r of Inl e \<Rightarrow> [] | Inr g \<Rightarrow> layers_of (gen_model g))"

definition discriminator_layers :: "error + discriminator \<Rightarrow> module list" where
  "discriminator_layers r = (case r of Inl e \<Rightarrow> [] | Inr m \<Rightarrow> layers_of (disc_model m))"

subsection \<open>Facts about bit_length\<close>

lemma bits_power2: "bits (2 ^ k) = Suc k"
proof (induction k)
  case 0
  show ?case by (simp add: bits.simps)
next
  case (Suc k)
  have "bits (2 ^ Suc k) = Suc (bits (2 ^ k))"
    by (subst bits.simps) simp
  then show ?case using Suc by simp
qed

lemma bit_length_power2: "bit_length (2 ^ k) = Suc k"
proof -
  have "nat \<bar>(2::int) ^ k\<bar> = 2 ^ k"
    by (simp add: nat_power_eq)
  then show ?thesis
    by (simp only: bit_length_def bits_power2)
qed

lemma num_repeats_power2: "num_repeats (2 ^ k) = int k - 3"
  by (simp add: num_repeats_def bit_length_power2)

subsection \<open>The size check on powers of two\<close>

lemma long_as_double_power2: "long_as_double (2 ^ k) = 2 ^ k"
proof (cases "Suc k \<le> 53")
  case True
  then show ?thesis
    by (simp add: long_as_double_def bit_length_power2)
next
  case False
  define sh where "sh = Suc k - 53"
  have k: "k = 52 + sh" and sh: "0 < sh"
    using False by (simp_all add: sh_def)
  have q: "(2::int) ^ k div 2 ^ sh = 2 ^ 52"
    by (simp add: k power_add)
  have r: "(2::int) ^ k mod 2 ^ sh = 0"
    by (simp add: k power_add)
  have half: "(0::int) < 2 ^ (sh - 1)"
    by simp
  have "long_as_double (2 ^ k) = 2 ^ 52 * 2 ^ sh"
    using False half
    unfolding long_as_double_def bit_length_power2 Let_def sh_def [symmetric] q r
    by simp
  also have "\<dots> = 2 ^ k"
    by (simp add: k power_add)
  finally show ?thesis .
qed

lemma math_log2_power2:
  assumes "exact_on_powers clog2"
  shows "math_log2 clog2 (2 ^ k) = real k"
  using assms by (simp add: math_log2_def long_as_double_power2 exact_on_powers_def)

lemma size_check_power2:
  assumes "exact_on_powers clog2" and "4 \<le> k"
  shows "\<not> ((2::int) ^ k < 16
          \<or> real_of_int \<lceil>math_log2 clog2 (2 ^ k)\<rceil> \<noteq> math_log2 clog2 (2 ^ k))"
proof -
  have "(2::int) ^ 4 \<le> 2 ^ k"
    using assms(2) by (intro power_increasing) simp_all
  then have "\<not> (2::int) ^ k < 16" by simp
  then show ?thesis
    by (simp add: math_log2_power2 [OF assms(1)])
qed

lemma exact_on_powers_log: "exact_on_powers (log 2)"
  by (simp add: exact_on_powers_def)

subsection \<open>The loops in closed form\<close>

lemma valid_config_power:
  assumes "valid_config e s c n"
  obtains k :: nat where "s = 2 ^ k" and "4 \<le> k"
proof -
  from assms obtain k :: nat where k: "s = 2 ^ k" and s: "16 \<le> s"
    by (auto simp: valid_config_def power_of_two_def)
  have "4 \<le> k"
  proof (rule ccontr)
    assume "\<not> 4 \<le> k"
    then have "k \<le> 3" by simp
    then have "(2::int) ^ k \<le> 2 ^ 3"
      by (intro power_increasing) simp_all
    with k s show False by simp
  qed
  with k show thesis by (rule that)
qed

lemma gen_loop_bn_closed:
  "gen_loop_bn ub nl r model (c * 2 ^ r) =
     (model @ map (\<lambda>j. up_layer (c * 2 ^ Suc j) (c * 2 ^ j) 2 1 ub True nl) (rev [0..<r]), c)"
proof (induction r arbitrary: model)
  case 0
  show ?case by simp
next
  case (Suc r)
  have half: "c * 2 ^ Suc r div 2 = c * 2 ^ r" by simp
  show ?case
    by (simp add: half Suc.IH up_layer_def del: power_Suc)
qed

lemma gen_loop_plain_closed:
  "gen_loop_plain ub nl r model (c * 2 ^ r) =
     (model @ map (\<lambda>j. up_layer (c * 2 ^ Suc j) (c * 2 ^ j) 2 1 ub False nl) (rev [0..<r]), c)"
proof (induction r arbitrary: model)
  case 0
  show ?case by simp
next
  case (Suc r)
  have half: "c * 2 ^ Suc r div 2 = c * 2 ^ r" by simp
  show ?case
    by (simp add: half Suc.IH up_layer_def del: power_Suc)
qed

lemma disc_loop_bn_closed:
  "disc_loop_bn ub nl r model d =
     (model @ map (\<lambda>j. down_layer (d * 2 ^ j) (d * 2 ^ Suc j) 2 1 ub True nl) [0..<r], d * 2 ^ r)"
proof (induction r arbitrary: model d)
  case 0
  show ?case by simp
next
  case (Suc r)
  have "map (\<lambda>j. down_layer (d * 2 ^ j) (d * 2 ^ Suc j) 2 1 ub True nl) [0..<Suc r] =
        down_layer d (d * 2) 2 1 ub True nl
        # map (\<lambda>j. down_layer (d * 2 * 2 ^ j) (d * 2 * 2 ^ Suc j) 2 1 ub True nl) [0..<r]"
    by (simp add: upt_conv_Cons map_Suc_upt [symmetric] mult.assoc del: upt_Suc)
  then show ?case
    by (simp add: Suc.IH down_layer_def mult.assoc del: upt_Suc)
qed

lemma disc_loop_plain_closed:
  "disc_loop_plain ub nl r model d =
     (model @ map (\<lambda>j. down_layer (d * 2 ^ j) (d * 2 ^ Suc j) 2 1 ub False nl) [0..<r], d * 2 ^ r)"
proof (induction r arbitrary: model d)
  case 0
  show ?case by simp
next
  case (Suc r)
  have "map (\<lambda>j. down_layer (d * 2 ^ j) (d * 2 ^ Suc j) 2 1 ub False nl) [0..<Suc r] =
        down_layer d (d * 2) 2 1 ub False nl
        # map (\<lambda>j. down_layer (d * 2 * 2 ^ j) (d * 2 * 2 ^ Suc j) 2 1 ub False nl) [0..<r]"
    by (simp add: upt_conv_Cons map_Suc_upt [symmetric] mult.assoc del: upt_Suc)
  then show ?case
    by (simp add: Suc.IH down_layer_def mult.assoc del: upt_Suc)
qed

subsection \<open>The constructors on a valid size\<close>

lemma DCGANGenerator_init_power2:
  assumes "exact_on_powers clog2" and "4 \<le> k"
  shows "DCGANGenerator_init clog2 e (2 ^ k) ch n bn nonlin lastnl =
    Inr \<lparr> gen_encoding_dims = e, gen_ch = ch, gen_n = n,
          gen_model = Sequential
            (up_layer e (n * 2 ^ (k - 3)) 1 0 (\<not> bn) bn
                 (case nonlin of None \<Rightarrow> LeakyReLU (2 / 10) | Some a \<Rightarrow> a)
             # map (\<lambda>j. up_layer (n * 2 ^ Suc j) (n * 2 ^ j) 2 1 (\<not> bn) bn
                        (case nonlin of None \<Rightarrow> LeakyReLU (2 / 10) | Some a \<Rightarrow> a))
                   (rev [0..<k - 3])
             @ [up_layer n ch 2 1 True False
                  (case lastnl of None \<Rightarrow> Tanh | Some a \<Rightarrow> a)]) \<rparr>"
proof -
  have r: "nat (num_repeats (2 ^ k)) = k - 3"
    using assms(2) by (simp add: num_repeats_power2)
  show ?thesis
    unfolding DCGANGenerator_init_def Let_def r
    using size_check_power2 [OF assms]
    by (cases bn) (simp_all add: gen_loop_bn_closed gen_loop_plain_closed up_layer_def)
qed

lemma DCGANDiscriminator_init_power2:
  assumes "exact_on_powers clog2" and "4 \<le> k"
  shows "DCGANDiscriminator_init clog2 (2 ^ k) ch n bn nonlin lastnl =
    Inr \<lparr> disc_input_dims = ch, disc_n = n,
          disc_model = Sequential
            (down_layer ch n 2 1 True False
                 (case nonlin of None \<Rightarrow> LeakyReLU (2 / 10) | Some a \<Rightarrow> a)
             # map (\<lambda>j. down_layer (n * 2 ^ j) (n * 2 ^ Suc j) 2 1 (\<not> bn) bn
                        (case nonlin of None \<Rightarrow> LeakyReLU (2 / 10) | Some a \<Rightarrow> a))
                   [0..<k - 3]
             @ [down_layer (n * 2 ^ (k - 3)) 1 1 0 (\<not> bn) False
                  (case lastnl of None \<Rightarrow> LeakyReLU (2 / 10) | Some a \<Rightarrow> a)]) \<rparr>"
proof -
  have r: "nat (num_repeats (2 ^ k)) = k - 3"
    using assms(2) by (simp add: num_repeats_power2)
  show ?thesis
    unfolding DCGANDiscriminator_init_def Let_def r
    using size_check_power2 [OF assms]
    by (cases bn) (simp_all add: disc_loop_bn_closed disc_loop_plain_closed down_layer_def)
qed

subsection \<open>Shapes through the layers\<close>

lemma forward_list_append:
  "forward_list (xs @ ys) x =
     (case forward_list xs x of Inl e \<Rightarrow> Inl e | Inr y \<Rightarrow> forward_list ys y)"
  by (induction xs arbitrary: x) (simp_all split: sum.splits)

lemma forward_up_layer:
  assumes "0 < conv_transpose_out h 4 s p"
  shows "forward (up_layer cin cout s p b bn act) [m, cin, h, h] =
           Inr [m, cout, conv_transpose_out h 4 s p, conv_transpose_out h 4 s p]"
  using assms by (simp add: up_layer_def)

lemma forward_down_layer:
  assumes "4 \<le> h + 2 * p"
  shows "forward (down_layer cin cout s p b bn act) [m, cin, h, h] =
           Inr [m, cout, conv_out h 4 s p, conv_out h 4 s p]"
  using assms by (simp add: down_layer_def)

lemma forward_up_layers:
  assumes "0 < h"
  shows "forward_list (map (\<lambda>j. up_layer (c * 2 ^ Suc j) (c * 2 ^ j) 2 1 b bn act) (rev [0..<r]))
           [m, c * 2 ^ r, h, h] = Inr [m, c, h * 2 ^ r, h * 2 ^ r]"
  using assms
proof (induction r arbitrary: h)
  case 0
  show ?case by simp
next
  case (Suc r)
  have out: "conv_transpose_out h 4 2 1 = 2 * h"
    by (simp add: conv_transpose_out_def algebra_simps)
  have pos: "0 < conv_transpose_out h 4 2 1"
    using Suc.prems by (simp add: out)
  have "0 < 2 * h" using Suc.prems by simp
  from Suc.IH [OF this] show ?case
    by (simp add: forward_up_layer [OF pos] out mult.assoc mult.left_commute del: power_Suc)
       (simp add: mult.assoc mult.left_commute)
qed

lemma forward_down_layers:
  assumes "0 < h"
  shows "forward_list (map (\<lambda>j. down_layer (d * 2 ^ j) (d * 2 ^ Suc j) 2 1 b bn act) [0..<r])
           [m, d, h * 2 ^ r, h * 2 ^ r] = Inr [m, d * 2 ^ r, h, h]"
  using assms
proof (induction r arbitrary: d)
  case 0
  show ?case by simp
next
  case (Suc r)
  have "(1::int) * 2 \<le> h * 2 ^ Suc r"
    using Suc.prems by (intro mult_mono) simp_all
  then have big: "2 \<le> h * 2 ^ Suc r"
    by simp
  have out: "conv_out (h * 2 ^ Suc r) 4 2 1 = h * 2 ^ r"
    by (simp add: conv_out_def)
  have inp: "4 \<le> h * 2 ^ Suc r + 2 * 1"
    using big by simp
  have split: "map (\<lambda>j. down_layer (d * 2 ^ j) (d * 2 ^ Suc j) 2 1 b bn act) [0..<Suc r] =
        down_layer d (d * 2) 2 1 b bn act
        # map (\<lambda>j. down_layer (d * 2 * 2 ^ j) (d * 2 * 2 ^ Suc j) 2 1 b bn act) [0..<r]"
    by (simp add: upt_conv_Cons map_Suc_upt [symmetric] mult.assoc del: upt_Suc)
  have first: "forward (down_layer d (d * 2) 2 1 b bn act) [m, d, h * 2 ^ Suc r, h * 2 ^ Suc r] =
        Inr [m, d * 2, h * 2 ^ r, h * 2 ^ r]"
    using forward_down_layer [OF inp] by (simp only: out)
  have rest: "forward_list
        (map (\<lambda>j. down_layer (d * 2 * 2 ^ j) (d * 2 * 2 ^ Suc j) 2 1 b bn act) [0..<r])
        [m, d * 2, h * 2 ^ r, h * 2 ^ r] = Inr [m, d * 2 * 2 ^ r, h, h]"
    by (rule Suc.IH [OF Suc.prems])
  have eq: "d * 2 * 2 ^ r = d * 2 ^ Suc r"
    by simp
  show ?case
    unfolding split by (simp only: forward_list.simps first rest sum.case eq)
qed

subsection \<open>Powers of two\<close>

lemma power_of_two_ge_16:
  assumes "power_of_two s" and "16 \<le> s"
  obtains k :: nat where "s = 2 ^ k" and "4 \<le> k"
proof -
  from assms obtain k :: nat where k: "s = 2 ^ k"
    by (auto simp: power_of_two_def)
  have "4 \<le> k"
  proof (rule ccontr)
    assume "\<not> 4 \<le> k"
    then have "k \<le> 3" by simp
    then have "(2::int) ^ k \<le> 2 ^ 3"
      by (intro power_increasing) simp_all
    with k assms(2) show False by simp
  qed
  with k show thesis by (rule that)
qed

lemma power_of_two_32: "power_of_two 32"
  unfolding power_of_two_def by (rule exI [of _ 5]) simp

subsection \<open>Shapes through a whole model\<close>

lemma view_batch:
  assumes "0 < e"
  shows "view [b, e] [- 1, e, 1, 1] = Inr [b, e, 1, 1]"
  using assms by (simp add: view_def)

lemma view_flatten:
  assumes "0 < b"
  shows "view [b, 1, 1, 1] [b] = Inr [b]"
  using assms by (simp add: view_def)

lemma generator_forward_power2:
  "forward (Sequential
      (up_layer e (n * 2 ^ r) 1 0 b1 bn1 a1
       # map (\<lambda>j. up_layer (n * 2 ^ Suc j) (n * 2 ^ j) 2 1 b2 bn2 a2) (rev [0..<r])
       @ [up_layer n ch 2 1 b3 bn3 a3]))
     [m, e, 1, 1] = Inr [m, ch, 8 * 2 ^ r, 8 * 2 ^ r]"
proof -
  have first: "forward (up_layer e (n * 2 ^ r) 1 0 b1 bn1 a1) [m, e, 1, 1] = Inr [m, n * 2 ^ r, 4, 4]"
    by (simp add: up_layer_def conv_transpose_out_def)
  have mid: "forward_list
       (map (\<lambda>j. up_layer (n * 2 ^ Suc j) (n * 2 ^ j) 2 1 b2 bn2 a2) (rev [0..<r]))
       [m, n * 2 ^ r, 4, 4] = Inr [m, n, 4 * 2 ^ r, 4 * 2 ^ r]"
    by (rule forward_up_layers) simp
  have out: "conv_transpose_out (4 * 2 ^ r) 4 2 1 = 8 * 2 ^ r"
    by (simp add: conv_transpose_out_def algebra_simps)
  have "0 < conv_transpose_out (4 * 2 ^ r) 4 2 1"
    by (simp add: out)
  then have final: "forward (up_layer n ch 2 1 b3 bn3 a3) [m, n, 4 * 2 ^ r, 4 * 2 ^ r] =
      Inr [m, ch, 8 * 2 ^ r, 8 * 2 ^ r]"
    using forward_up_layer [of "4 * 2 ^ r" 2 1 n ch b3 bn3 a3 m] by (simp only: out)
  show ?thesis
    by (simp only: forward.simps forward_list.simps forward_list_append first mid final sum.case)
qed

lemma discriminator_forward_power2:
  "forward (Sequential
      (down_layer ch n 2 1 b1 bn1 a1
       # map (\<lambda>j. down_layer (n * 2 ^ j) (n * 2 ^ Suc j) 2 1 b2 bn2 a2) [0..<r]
       @ [down_layer (n * 2 ^ r) 1 1 0 b3 bn3 a3]))
     [m, ch, 8 * 2 ^ r, 8 * 2 ^ r] = Inr [m, 1, 1, 1]"
proof -
  have out1: "conv_out (8 * 2 ^ r) 4 2 1 = 4 * 2 ^ r"
    by (simp add: conv_out_def)
  have "(1::int) \<le> 2 ^ r"
    by (rule one_le_power) simp
  then have "(4::int) \<le> 8 * 2 ^ r + 2 * 1"
    by linarith
  then have first: "forward (down_layer ch n 2 1 b1 bn1 a1) [m, ch, 8 * 2 ^ r, 8 * 2 ^ r] =
      Inr [m, n, 4 * 2 ^ r, 4 * 2 ^ r]"
    using forward_down_layer [of "8 * 2 ^ r" 1 ch n 2 b1 bn1 a1 m] by (simp only: out1)
  have mid: "forward_list
       (map (\<lambda>j. down_layer (n * 2 ^ j) (n * 2 ^ Suc j) 2 1 b2 bn2 a2) [0..<r])
       [m, n, 4 * 2 ^ r, 4 * 2 ^ r] = Inr [m, n * 2 ^ r, 4, 4]"
    by (rule forward_down_layers) simp
  have final: "forward (down_layer (n * 2 ^ r) 1 1 0 b3 bn3 a3) [m, n * 2 ^ r, 4, 4] =
      Inr [m, 1, 1, 1]"
    by (simp add: down_layer_def conv_out_def)
  show ?thesis
    by (simp only: forward.simps forward_list.simps forward_list_append first mid final sum.case)
qed

lemma eight_times: "4 \<le> k \<Longrightarrow> (8::int) * 2 ^ (k - 3) = 2 ^ k"
proof -
  assume "4 \<le> k"
  then have "k = 3 + (k - 3)" by simp
  then have "(2::int) ^ k = 2 ^ 3 * 2 ^ (k - 3)"
    by (metis power_add)
  then show ?thesis by simp
qed

lemma generator_forward_valid:
  assumes "exact_on_powers clog2" and "power_of_two s" and "16 \<le> s" and "0 < e"
  shows "\<exists>g. DCGANGenerator_init clog2 e s ch n bn nonlin lastnl = Inr g
           \<and> forward (gen_model g) [batch, e, 1, 1] = Inr [batch, ch, s, s]
           \<and> DCGANGenerator_forward g [batch, e] = Inr [batch, ch, s, s]"
proof -
  from assms(2,3) obtain k :: nat where s: "s = 2 ^ k" and k: "4 \<le> k"
    by (rule power_of_two_ge_16)
  have size: "(8::int) * 2 ^ (k - 3) = s"
    using eight_times [OF k] by (simp add: s)
  show ?thesis
    unfolding s DCGANGenerator_init_power2 [OF assms(1) k]
    by (simp add: DCGANGenerator_forward_def view_batch [OF assms(4)]
          generator_forward_power2 size [unfolded s] del: forward.simps power_Suc)
qed

lemma discriminator_forward_valid:
  assumes "exact_on_powers clog2" and "power_of_two s" and "16 \<le> s" and "0 < batch"
  shows "\<exists>m. DCGANDiscriminator_init clog2 s ch n bn nonlin lastnl = Inr m
           \<and> forward (disc_model m) [batch, ch, s, s] = Inr [batch, 1, 1, 1]
           \<and> DCGANDiscriminator_forward m [batch, ch, s, s] = Inr [batch]"
proof -
  from assms(2,3) obtain k :: nat where s: "s = 2 ^ k" and k: "4 \<le> k"
    by (rule power_of_two_ge_16)
  have size: "(8::int) * 2 ^ (k - 3) = s"
    using eight_times [OF k] by (simp add: s)
  have fwd: "forward (Sequential
      (down_layer ch n 2 1 b1 bn1 a1
       # map (\<lambda>j. down_layer (n * 2 ^ j) (n * 2 ^ Suc j) 2 1 b2 bn2 a2) [0..<k - 3]
       @ [down_layer (n * 2 ^ (k - 3)) 1 1 0 b3 bn3 a3]))
     [batch, ch, 2 ^ k, 2 ^ k] = Inr [batch, 1, 1, 1]" for b1 bn1 a1 b2 bn2 a2 b3 bn3 a3
    using discriminator_forward_power2 [of ch n b1 bn1 a1 b2 bn2 a2 "k - 3" b3 bn3 a3 batch]
    by (simp only: size [unfolded s])
  show ?thesis
    unfolding s DCGANDiscriminator_init_power2 [OF assms(1) k]
    by (simp add: DCGANDiscriminator_forward_def view_flatten [OF assms(4)] fwd
          del: forward.simps power_Suc)
qed

lemma valid_config_default: "valid_config 100 32 3 64"
  by (simp add: valid_config_def power_of_two_32)

subsection \<open>Reading the layers of a built model\<close>

lemma layer_out_channels_up [simp]:
  "layer_out_channels (up_layer cin cout s p b bn a) = Some cout"
  by (simp add: up_layer_def)

lemma layer_out_channels_down [simp]:
  "layer_out_channels (down_layer cin cout s p b bn a) = Some cout"
  by (simp add: down_layer_def)

lemma layer_bias_up [simp]: "layer_bias (up_layer cin cout s p b bn a) = Some b"
  by (simp add: up_layer_def)

lemma layer_bias_down [simp]: "layer_bias (down_layer cin cout s p b bn a) = Some b"
  by (simp add: down_layer_def)

lemma layer_activation_up [simp]: "layer_activation (up_layer cin cout s p b bn a) = Some a"
  by (simp add: up_layer_def)

lemma layer_activation_down [simp]: "layer_activation (down_layer cin cout s p b bn a) = Some a"
  by (simp add: down_layer_def)

lemma div_power2:
  assumes "i \<le> r"
  shows "(n::int) * 2 ^ r div 2 ^ i = n * 2 ^ (r - i)"
proof -
  have "r = (r - i) + i" using assms by simp
  then have "(2::int) ^ r = 2 ^ (r - i) * 2 ^ i"
    by (metis power_add)
  then have "n * 2 ^ r = n * 2 ^ (r - i) * 2 ^ i"
    by simp
  then show ?thesis
    by (simp only: nonzero_mult_div_cancel_right power_not_zero zero_neq_numeral not_False_eq_True)
qed

lemma nth_middle_up:
  assumes "i < r"
  shows "(x # map f (rev [0..<r]) @ [z]) ! Suc i = f (r - Suc i)"
  using assms by (simp add: nth_append rev_nth)

lemma nth_middle_down:
  assumes "i < r"
  shows "(x # map f [0..<r] @ [z]) ! Suc i = f i"
  using assms by (simp add: nth_append)

lemma generator_out_channels_nth:
  assumes "i \<le> r"
  shows "layer_out_channels
           ((up_layer e (n * 2 ^ r) 1 0 b1 bn1 a1
             # map (\<lambda>j. up_layer (n * 2 ^ Suc j) (n * 2 ^ j) 2 1 b2 bn2 a2) (rev [0..<r])
             @ [z]) ! i) = Some (n * 2 ^ (r - i))"
proof (cases i)
  case 0
  then show ?thesis by simp
next
  case (Suc i')
  then have "i' < r" using assms by simp
  then show ?thesis
    unfolding Suc by (simp only: nth_middle_up layer_out_channels_up)
qed

lemma discriminator_out_channels_nth:
  assumes "i \<le> r"
  shows "layer_out_channels
           ((down_layer ch n 2 1 b1 bn1 a1
             # map (\<lambda>j. down_layer (n * 2 ^ j) (n * 2 ^ Suc j) 2 1 b2 bn2 a2) [0..<r]
             @ [z]) ! i) = Some (n * 2 ^ i)"
proof (cases i)
  case 0
  then show ?thesis by simp
next
  case (Suc i')
  then have "i' < r" using assms by simp
  then show ?thesis
    unfolding Suc by (simp only: nth_middle_down layer_out_channels_down)
qed

lemma num_repeats_32: "num_repeats 32 = 2"
  using num_repeats_power2 [of 5] by simp

lemma generator_default_32:
  "DCGANGenerator_init (log 2) 100 32 3 64 True None None =
     Inr \<lparr> gen_encoding_dims = 100, gen_ch = 3, gen_n = 64,
           gen_model = Sequential
             [up_layer 100 256 1 0 False True (LeakyReLU (2 / 10)),
              up_layer 256 128 2 1 False True (LeakyReLU (2 / 10)),
              up_layer 128 64 2 1 False True (LeakyReLU (2 / 10)),
              up_layer 64 3 2 1 True False Tanh] \<rparr>"
proof -
  have k: "(4::nat) \<le> 5" by simp
  have up: "[0..<2] = [0, Suc 0]"
    by (simp add: numeral_2_eq_2 upt_rec)
  show ?thesis
    using DCGANGenerator_init_power2 [OF exact_on_powers_log k, of 100 3 64 True None None]
    by (simp add: up)
qed

lemma discriminator_default_32:
  "DCGANDiscriminator_init (log 2) 32 3 64 True None None =
     Inr \<lparr> disc_input_dims = 3, disc_n = 64,
           disc_model = Sequential
             [down_layer 3 64 2 1 True False (LeakyReLU (2 / 10)),
              down_layer 64 128 2 1 False True (LeakyReLU (2 / 10)),
              down_layer 128 256 2 1 False True (LeakyReLU (2 / 10)),
              down_layer 256 1 1 0 False False (LeakyReLU (2 / 10))] \<rparr>"
proof -
  have k: "(4::nat) \<le> 5" by simp
  have up: "[0..<2] = [0, Suc 0]"
    by (simp add: numeral_2_eq_2 upt_rec)
  show ?thesis
    using DCGANDiscriminator_init_power2 [OF exact_on_powers_log k, of 3 64 True None None]
    by (simp add: up)
qed

subsection \<open>The size check beyond 53 bits\<close>

lemma bits_numeral [simp]:
  "bits (numeral (Num.Bit0 n)) = Suc (bits (numeral n))"
  "bits (numeral (Num.Bit1 n)) = Suc (bits (numeral n))"
  "bits (Suc 0) = Suc 0"
  by (subst bits.simps, simp)+

lemma long_as_double_big: "long_as_double (2 ^ 53 + 1) = 2 ^ 53"
  by (simp add: long_as_double_def bit_length_def Let_def)

lemma num_repeats_big: "num_repeats (2 ^ 53 + 1) = 50"
  by (simp add: num_repeats_def bit_length_def)

lemma math_log2_big:
  assumes "exact_on_powers clog2"
  shows "math_log2 clog2 9007199254740993 = 53"
proof -
  have "long_as_double 9007199254740993 = 2 ^ 53"
    using long_as_double_big by simp
  then have "math_log2 clog2 9007199254740993 = clog2 (real_of_int (2 ^ 53))"
    by (simp only: math_log2_def)
  also have "\<dots> = clog2 (2 ^ 53)"
    by simp
  also have "\<dots> = real 53"
    using assms unfolding exact_on_powers_def by (rule allE)
  finally show ?thesis by simp
qed

lemma size_check_big:
  assumes "exact_on_powers clog2"
  shows "\<not> ((9007199254740993::int) < 16
          \<or> real_of_int \<lceil>math_log2 clog2 9007199254740993\<rceil>
              \<noteq> math_log2 clog2 9007199254740993)"
  by (simp add: math_log2_big [OF assms])

lemma not_power_of_two_big: "\<not> power_of_two 9007199254740993"
proof
  assume "power_of_two 9007199254740993"
  then obtain k :: nat where k: "(9007199254740993::int) = 2 ^ k"
    by (auto simp: power_of_two_def)
  have odd: "odd (9007199254740993::int)"
    by simp
  show False
  proof (cases k)
    case 0
    with k show False by simp
  next
    case (Suc j)
    then have "even ((2::int) ^ k)" by simp
    moreover have "odd ((2::int) ^ k)"
      using odd unfolding k .
    ultimately show False by blast
  qed
qed

lemma generator_accepts:
  assumes "\<not> (s < 16 \<or> real_of_int \<lceil>math_log2 clog2 s\<rceil> \<noteq> math_log2 clog2 s)"
  shows "\<exists>g. DCGANGenerator_init clog2 e s ch n bn nonlin lastnl = Inr g"
  using assms by (simp add: DCGANGenerator_init_def Let_def split: prod.splits)

lemma discriminator_accepts:
  assumes "\<not> (s < 16 \<or> real_of_int \<lceil>math_log2 clog2 s\<rceil> \<noteq> math_log2 clog2 s)"
  shows "\<exists>m. DCGANDiscriminator_init clog2 s ch n bn nonlin lastnl = Inr m"
  using assms by (simp add: DCGANDiscriminator_init_def Let_def split: prod.splits)

lemma generator_rejects_small:
  "s < 16 \<Longrightarrow> DCGANGenerator_init clog2 e s ch n bn nonlin lastnl = Inl ConfigError"
  by (simp add: DCGANGenerator_init_def)

lemma discriminator_rejects_small:
  "s < 16 \<Longrightarrow> DCGANDiscriminator_init clog2 s ch n bn nonlin lastnl = Inl ConfigError"
  by (simp add: DCGANDiscriminator_init_def)

section \<open>The claims\<close>

subsection \<open>C1: the number of intermediate layers\<close>

text \<open>
  The specification gives the number of intermediate layers as \<open>log2 spatialSize - 4\<close>,
  that is 0 for size 16. The constructors compute \<^verbatim>\<open>bit_length() - 4\<close>, and a power of two
  \<open>2 ^ k\<close> has \<open>k + 1\<close> binary digits: for size 16 the value is 1, not 0.
\<close>

theorem num_repeats_16_counterexample:
  "real_of_int (num_repeats 16) \<noteq> log 2 16 - 4"
proof -
  have "num_repeats (2 ^ 4) = 1"
    by (simp only: num_repeats_power2)
  moreover have "log 2 (2 ^ 4) = real 4"
    by (rule log_pow_cancel) simp_all
  moreover have "(2::real) ^ 4 = 16" and "(2::int) ^ 4 = 16"
    by simp_all
  ultimately show ?thesis by simp
qed

text \<open>
  C1, as the code has it: for every valid spatial size (a power of two, at least 16) the
  number of intermediate doubling layers computed by both builders is
  \<open>log2 spatialSize - 3\<close>, at least 1, and each built model has that many layers
  between its first and its last; for the sizes 16, 32, 64 and 128 the value is
  1, 2, 3 and 4.
\<close>

theorem num_repeats_log2_minus_3:
  assumes "exact_on_powers clog2" and "power_of_two s" and "16 \<le> s"
  shows "real_of_int (num_repeats s) = log 2 (real_of_int s) - 3
       \<and> 1 \<le> num_repeats s
       \<and> (\<exists>g. DCGANGenerator_init clog2 e s ch n bn nonlin lastnl = Inr g
              \<and> int (length (layers_of (gen_model g))) = num_repeats s + 2)
       \<and> (\<exists>m. DCGANDiscriminator_init clog2 s ch n bn nonlin lastnl = Inr m
              \<and> int (length (layers_of (disc_model m))) = num_repeats s + 2)
       \<and> num_repeats 16 = 1 \<and> num_repeats 32 = 2
       \<and> num_repeats 64 = 3 \<and> num_repeats 128 = 4"
proof -
  have "num_repeats (2 ^ 4) = 1" "num_repeats (2 ^ 5) = 2"
       "num_repeats (2 ^ 6) = 3" "num_repeats (2 ^ 7) = 4"
    by (simp_all only: num_repeats_power2)
  then have vals: "num_repeats 16 = 1 \<and> num_repeats 32 = 2
                   \<and> num_repeats 64 = 3 \<and> num_repeats 128 = 4"
    by simp
  from assms(2,3) obtain k :: nat where s: "s = 2 ^ k" and k: "4 \<le> k"
    by (rule power_of_two_ge_16)
  have r: "num_repeats s = int k - 3"
    by (simp add: s num_repeats_power2)
  have "log 2 (real_of_int s) = real k"
    by (simp add: s)
  then have a: "real_of_int (num_repeats s) = log 2 (real_of_int s) - 3"
    using k by (simp add: r)
  have b: "1 \<le> num_repeats s"
    using k by (simp add: r)
  have len: "int (Suc (k - 3 + 1)) = int k - 3 + 2"
    using k by simp
  have c: "\<exists>g. DCGANGenerator_init clog2 e s ch n bn nonlin lastnl = Inr g
              \<and> int (length (layers_of (gen_model g))) = num_repeats s + 2"
    unfolding s DCGANGenerator_init_power2 [OF assms(1) k] r [unfolded s]
    using len by simp
  have d: "\<exists>m. DCGANDiscriminator_init clog2 s ch n bn nonlin lastnl = Inr m
              \<and> int (length (layers_of (disc_model m))) = num_repeats s + 2"
    unfolding s DCGANDiscriminator_init_power2 [OF assms(1) k] r [unfolded s]
    using len by simp
  from a b c d vals show ?thesis by blast
qed

theorem num_repeats_log2_minus_3_witness:
  "exact_on_powers (log 2) \<and> power_of_two 32 \<and> (16::int) \<le> 32
   \<and> (real_of_int (num_repeats 32) = log 2 (real_of_int 32) - 3
       \<and> 1 \<le> num_repeats 32
       \<and> (\<exists>g. DCGANGenerator_init (log 2) 100 32 3 64 True None None = Inr g
              \<and> int (length (layers_of (gen_model g))) = num_repeats 32 + 2)
       \<and> (\<exists>m. DCGANDiscriminator_init (log 2) 32 3 64 True None None = Inr m
              \<and> int (length (layers_of (disc_model m))) = num_repeats 32 + 2)
       \<and> num_repeats 16 = 1 \<and> num_repeats 32 = 2
       \<and> num_repeats 64 = 3 \<and> num_repeats 128 = 4)"
proof -
  have h: "(16::int) \<le> 32" by simp
  show ?thesis
    by (intro conjI [OF exact_on_powers_log] conjI [OF power_of_two_32] conjI [OF h])
       (rule num_repeats_log2_minus_3 [OF exact_on_powers_log power_of_two_32 h])
qed

subsection \<open>C3: the shape of the generator's output\<close>

text \<open>
  C3: for every valid configuration, the generator's forward evaluation on a batch of
  encoding vectors shaped \<open>[batch, encodingDimensions]\<close> reshapes the input to
  \<open>[batch, encodingDimensions, 1, 1]\<close>, applies the layers of the model in sequence
  and returns a tensor shaped \<open>[batch, channelCount, spatialSize, spatialSize]\<close>.
\<close>

theorem generator_forward_shape:
  assumes "exact_on_powers clog2" and "valid_config e s ch n" and "0 < batch"
  shows "\<exists>g. DCGANGenerator_init clog2 e s ch n bn nonlin lastnl = Inr g
           \<and> view [batch, e] [- 1, [batch, e] ! 1, 1, 1] = Inr [batch, e, 1, 1]
           \<and> forward (gen_model g) [batch, e, 1, 1] = Inr [batch, ch, s, s]
           \<and> DCGANGenerator_forward g [batch, e] = Inr [batch, ch, s, s]"
proof -
  from assms(2) have p: "power_of_two s" and s: "16 \<le> s" and e: "0 < e"
    by (simp_all add: valid_config_def)
  have "view [batch, e] [- 1, [batch, e] ! 1, 1, 1] = Inr [batch, e, 1, 1]"
    using view_batch [OF e] by simp
  with generator_forward_valid [OF assms(1) p s e] show ?thesis
    by blast
qed

theorem generator_forward_shape_witness:
  "exact_on_powers (log 2) \<and> valid_config 100 32 3 64 \<and> (0::int) < 2
   \<and> (\<exists>g. DCGANGenerator_init (log 2) 100 32 3 64 True None None = Inr g
          \<and> view [2, 100] [- 1, [2, 100] ! 1, 1, 1] = Inr [2, 100, 1, 1]
          \<and> forward (gen_model g) [2, 100, 1, 1] = Inr [2, 3, 32, 32]
          \<and> DCGANGenerator_forward g [2, 100] = Inr [2, 3, 32, 32])"
proof -
  have b: "(0::int) < 2" by simp
  show ?thesis
    using generator_forward_shape [OF exact_on_powers_log valid_config_default b,
        of True None None]
      exact_on_powers_log valid_config_default
    by simp
qed

subsection \<open>C5: the generator's output fits the discriminator\<close>

text \<open>
  C5: with channel count 3 and spatial size 32 on both sides, the generator's output of
  shape \<open>[B, 3, 32, 32]\<close> goes through the discriminator's forward evaluation without a
  shape error, and the discriminator returns a tensor of shape \<open>[B]\<close>.
\<close>

theorem generator_into_discriminator:
  assumes "exact_on_powers clog2" and "0 < e" and "0 < batch"
  shows "\<exists>g m. DCGANGenerator_init clog2 e 32 3 n bn nonlin lastnl = Inr g
           \<and> DCGANDiscriminator_init clog2 32 3 n' bn' nonlin' lastnl' = Inr m
           \<and> DCGANGenerator_forward g [batch, e] = Inr [batch, 3, 32, 32]
           \<and> DCGANDiscriminator_forward m [batch, 3, 32, 32] = Inr [batch]"
proof -
  have s: "(16::int) \<le> 32" by simp
  from generator_forward_valid [OF assms(1) power_of_two_32 s assms(2)]
  obtain g where "DCGANGenerator_init clog2 e 32 3 n bn nonlin lastnl = Inr g"
    and "DCGANGenerator_forward g [batch, e] = Inr [batch, 3, 32, 32]"
    by blast
  moreover from discriminator_forward_valid [OF assms(1) power_of_two_32 s assms(3)]
  obtain m where "DCGANDiscriminator_init clog2 32 3 n' bn' nonlin' lastnl' = Inr m"
    and "DCGANDiscriminator_forward m [batch, 3, 32, 32] = Inr [batch]"
    by blast
  ultimately show ?thesis by blast
qed

theorem generator_into_discriminator_witness:
  "exact_on_powers (log 2) \<and> (0::int) < 100 \<and> (0::int) < 2
   \<and> (\<exists>g m. DCGANGenerator_init (log 2) 100 32 3 64 True None None = Inr g
           \<and> DCGANDiscriminator_init (log 2) 32 3 64 True None None = Inr m
           \<and> DCGANGenerator_forward g [2, 100] = Inr [2, 3, 32, 32]
           \<and> DCGANDiscriminator_forward m [2, 3, 32, 32] = Inr [2])"
proof -
  have e: "(0::int) < 100" and b: "(0::int) < 2" by simp_all
  show ?thesis
    using generator_into_discriminator [OF exact_on_powers_log e b,
        of 64 True None None 64 True None None]
      exact_on_powers_log
    by simp
qed

subsection \<open>C6: the layers of the generator\<close>

text \<open>
  C6: for every valid configuration the generator's model begins with one expansion
  layer with kernel 4, stride 1 and padding 0 that maps \<open>encodingDimensions\<close> channels to
  \<open>d = stepChannels * 2 ^ repeats\<close> channels (normalised when normalisation is on, then
  the activation), followed by exactly \<open>repeats\<close> layers with kernel 4, stride 2 and
  padding 1 that each halve the channel depth, each normalised when normalisation is on
  and followed by the activation. Here \<open>repeats\<close> is the value the builder computes.
\<close>

theorem generator_layers_structure:
  assumes "exact_on_powers clog2" and "valid_config e s ch n"
  shows "\<exists>g ls. DCGANGenerator_init clog2 e s ch n bn nonlin lastnl = Inr g
     \<and> layers_of (gen_model g) = ls
     \<and> length ls = nat (num_repeats s) + 2
     \<and> ls ! 0 = up_layer e (n * 2 ^ nat (num_repeats s)) 1 0 (\<not> bn) bn
                   (case nonlin of None \<Rightarrow> LeakyReLU (2 / 10) | Some a \<Rightarrow> a)
     \<and> (\<forall>i < nat (num_repeats s).
           ls ! Suc i = up_layer (n * 2 ^ nat (num_repeats s) div 2 ^ i)
                          (n * 2 ^ nat (num_repeats s) div 2 ^ Suc i) 2 1 (\<not> bn) bn
                          (case nonlin of None \<Rightarrow> LeakyReLU (2 / 10) | Some a \<Rightarrow> a)
           \<and> 2 * (n * 2 ^ nat (num_repeats s) div 2 ^ Suc i)
               = n * 2 ^ nat (num_repeats s) div 2 ^ i)"
proof -
  from assms(2) obtain k :: nat where s: "s = 2 ^ k" and k: "4 \<le> k"
    by (rule valid_config_power)
  define r where "r = k - 3"
  have r: "nat (num_repeats s) = r"
    by (simp add: s num_repeats_power2 r_def)
  define nl where "nl = (case nonlin of None \<Rightarrow> LeakyReLU (2 / 10) | Some a \<Rightarrow> a)"
  define f where "f = (\<lambda>j. up_layer (n * 2 ^ Suc j) (n * 2 ^ j) 2 1 (\<not> bn) bn nl)"
  define z where "z = up_layer n ch 2 1 True False (case lastnl of None \<Rightarrow> Tanh | Some a \<Rightarrow> a)"
  define ls where "ls = up_layer e (n * 2 ^ r) 1 0 (\<not> bn) bn nl # map f (rev [0..<r]) @ [z]"
  have init: "DCGANGenerator_init clog2 e s ch n bn nonlin lastnl =
      Inr \<lparr> gen_encoding_dims = e, gen_ch = ch, gen_n = n, gen_model = Sequential ls \<rparr>"
    unfolding s ls_def f_def z_def nl_def r_def
    by (rule DCGANGenerator_init_power2 [OF assms(1) k])
  have len: "length ls = r + 2"
    by (simp add: ls_def)
  have first: "ls ! 0 = up_layer e (n * 2 ^ r) 1 0 (\<not> bn) bn nl"
    by (simp add: ls_def)
  have mid: "ls ! Suc i = up_layer (n * 2 ^ r div 2 ^ i) (n * 2 ^ r div 2 ^ Suc i) 2 1 (\<not> bn) bn nl
           \<and> 2 * (n * 2 ^ r div 2 ^ Suc i) = n * 2 ^ r div 2 ^ i" if "i < r" for i
  proof -
    have a: "n * 2 ^ r div 2 ^ i = n * 2 ^ Suc (r - Suc i)"
      using that div_power2 [of i r n] by (simp add: Suc_diff_Suc)
    have b: "n * 2 ^ r div 2 ^ Suc i = n * 2 ^ (r - Suc i)"
      using that by (intro div_power2) simp
    have "ls ! Suc i = f (r - Suc i)"
      unfolding ls_def by (rule nth_middle_up [OF that])
    then show ?thesis
      unfolding a b by (simp add: f_def)
  qed
  show ?thesis
    unfolding r nl_def [symmetric]
    using init len first mid by auto
qed

theorem generator_layers_structure_witness:
  "exact_on_powers (log 2) \<and> valid_config 100 32 3 64 \<and> num_repeats 32 = 2
   \<and> (\<exists>g ls. DCGANGenerator_init (log 2) 100 32 3 64 True None None = Inr g
     \<and> layers_of (gen_model g) = ls
     \<and> length ls = 4
     \<and> ls ! 0 = up_layer 100 256 1 0 False True (LeakyReLU (2 / 10))
     \<and> (\<forall>i < 2. ls ! Suc i = up_layer (256 div 2 ^ i) (256 div 2 ^ Suc i) 2 1 False True
                                 (LeakyReLU (2 / 10))
                  \<and> 2 * (256 div 2 ^ Suc i) = (256::int) div 2 ^ i))"
  using generator_layers_structure [OF exact_on_powers_log valid_config_default,
      of True None None]
    exact_on_powers_log valid_config_default
  by (simp add: num_repeats_32)

subsection \<open>C7: the first and the last layer of the discriminator\<close>

text \<open>
  C7: for every valid configuration the discriminator's model begins with one
  contraction layer from \<open>channelCount\<close> to \<open>stepChannels\<close> channels with stride 2,
  padding 1 and bias always on, followed by the activation and never by a normalisation,
  and ends with one layer to a single output channel with kernel 4, stride 1 and
  padding 0, followed by the final activation.
\<close>

theorem discriminator_first_and_last_layer:
  assumes "exact_on_powers clog2" and "valid_config e s ch n"
  shows "\<exists>m ls. DCGANDiscriminator_init clog2 s ch n bn nonlin lastnl = Inr m
     \<and> layers_of (disc_model m) = ls
     \<and> ls ! 0 = Sequential [Conv2d ch n 4 2 1 True,
                   Nonlinearity (case nonlin of None \<Rightarrow> LeakyReLU (2 / 10) | Some a \<Rightarrow> a)]
     \<and> last ls = Sequential [Conv2d (n * 2 ^ nat (num_repeats s)) 1 4 1 0 (\<not> bn),
                   Nonlinearity (case lastnl of None \<Rightarrow> LeakyReLU (2 / 10) | Some a \<Rightarrow> a)]"
proof -
  from assms(2) obtain k :: nat where s: "s = 2 ^ k" and k: "4 \<le> k"
    by (rule valid_config_power)
  have r: "nat (num_repeats (2 ^ k)) = k - 3"
    by (simp add: num_repeats_power2)
  show ?thesis
    unfolding s r DCGANDiscriminator_init_power2 [OF assms(1) k]
    by (simp add: down_layer_def)
qed

theorem discriminator_first_and_last_layer_witness:
  "exact_on_powers (log 2) \<and> valid_config 100 32 3 64
   \<and> (\<exists>m ls. DCGANDiscriminator_init (log 2) 32 3 64 True None None = Inr m
     \<and> layers_of (disc_model m) = ls
     \<and> ls ! 0 = Sequential [Conv2d 3 64 4 2 1 True, Nonlinearity (LeakyReLU (2 / 10))]
     \<and> last ls = Sequential [Conv2d 256 1 4 1 0 False, Nonlinearity (LeakyReLU (2 / 10))])"
  using discriminator_first_and_last_layer [OF exact_on_powers_log valid_config_default,
      of True None None]
    exact_on_powers_log valid_config_default
  by (simp add: num_repeats_32)

subsection \<open>C8: channel depth from layer to layer\<close>

text \<open>
  C8: for every valid configuration, in the generator's model the output channel count
  of each expansion layer is exactly half that of the layer before it, down to
  \<open>stepChannels\<close> at the layer before the final one; in the discriminator's model the
  output channel count of each contraction layer is exactly double that of the layer
  before it, starting from \<open>stepChannels\<close>.
\<close>

theorem channel_depth_progression:
  assumes "exact_on_powers clog2" and "valid_config e s ch n"
  shows "(\<exists>g ls. DCGANGenerator_init clog2 e s ch n bn nonlin lastnl = Inr g
            \<and> layers_of (gen_model g) = ls
            \<and> length ls = nat (num_repeats s) + 2
            \<and> (\<forall>i < nat (num_repeats s). \<exists>a b.
                  layer_out_channels (ls ! i) = Some a
                  \<and> layer_out_channels (ls ! Suc i) = Some b \<and> 2 * b = a)
            \<and> layer_out_channels (ls ! nat (num_repeats s)) = Some n)
       \<and> (\<exists>m ls. DCGANDiscriminator_init clog2 s ch n bn' nonlin' lastnl' = Inr m
            \<and> layers_of (disc_model m) = ls
            \<and> length ls = nat (num_repeats s) + 2
            \<and> layer_out_channels (ls ! 0) = Some n
            \<and> (\<forall>i < nat (num_repeats s). \<exists>a b.
                  layer_out_channels (ls ! i) = Some a
                  \<and> layer_out_channels (ls ! Suc i) = Some b \<and> b = 2 * a))"
proof -
  from assms(2) obtain k :: nat where s: "s = 2 ^ k" and k: "4 \<le> k"
    by (rule valid_config_power)
  define r where "r = k - 3"
  have r: "nat (num_repeats s) = r"
    by (simp add: s num_repeats_power2 r_def)
  have half: "2 * (n * 2 ^ (r - Suc i)) = n * 2 ^ (r - i)" if "i < r" for i
  proof -
    have "r - i = Suc (r - Suc i)" using that by simp
    then show ?thesis by simp
  qed
  define gl where "gl = up_layer e (n * 2 ^ r) 1 0 (\<not> bn) bn
        (case nonlin of None \<Rightarrow> LeakyReLU (2 / 10) | Some a \<Rightarrow> a)
      # map (\<lambda>j. up_layer (n * 2 ^ Suc j) (n * 2 ^ j) 2 1 (\<not> bn) bn
               (case nonlin of None \<Rightarrow> LeakyReLU (2 / 10) | Some a \<Rightarrow> a)) (rev [0..<r])
      @ [up_layer n ch 2 1 True False (case lastnl of None \<Rightarrow> Tanh | Some a \<Rightarrow> a)]"
  have ginit: "DCGANGenerator_init clog2 e s ch n bn nonlin lastnl =
      Inr \<lparr> gen_encoding_dims = e, gen_ch = ch, gen_n = n, gen_model = Sequential gl \<rparr>"
    unfolding s gl_def r_def by (rule DCGANGenerator_init_power2 [OF assms(1) k])
  have glen: "length gl = r + 2"
    by (simp add: gl_def)
  have gout: "layer_out_channels (gl ! i) = Some (n * 2 ^ (r - i))" if "i \<le> r" for i
    unfolding gl_def by (rule generator_out_channels_nth [OF that])
  have gstep: "\<exists>a b. layer_out_channels (gl ! i) = Some a
                  \<and> layer_out_channels (gl ! Suc i) = Some b \<and> 2 * b = a" if "i < r" for i
    using gout [of i] gout [of "Suc i"] half [OF that] that by simp
  have glast: "layer_out_channels (gl ! r) = Some n"
    using gout [of r] by simp
  have gen: "\<exists>g ls. DCGANGenerator_init clog2 e s ch n bn nonlin lastnl = Inr g
            \<and> layers_of (gen_model g) = ls
            \<and> length ls = r + 2
            \<and> (\<forall>i < r. \<exists>a b.
                  layer_out_channels (ls ! i) = Some a
                  \<and> layer_out_channels (ls ! Suc i) = Some b \<and> 2 * b = a)
            \<and> layer_out_channels (ls ! r) = Some n"
    using ginit glen gstep glast by auto
  define dl where "dl = down_layer ch n 2 1 True False
        (case nonlin' of None \<Rightarrow> LeakyReLU (2 / 10) | Some a \<Rightarrow> a)
      # map (\<lambda>j. down_layer (n * 2 ^ j) (n * 2 ^ Suc j) 2 1 (\<not> bn') bn'
               (case nonlin' of None \<Rightarrow> LeakyReLU (2 / 10) | Some a \<Rightarrow> a)) [0..<r]
      @ [down_layer (n * 2 ^ r) 1 1 0 (\<not> bn') False
           (case lastnl' of None \<Rightarrow> LeakyReLU (2 / 10) | Some a \<Rightarrow> a)]"
  have dinit: "DCGANDiscriminator_init clog2 s ch n bn' nonlin' lastnl' =
      Inr \<lparr> disc_input_dims = ch, disc_n = n, disc_model = Sequential dl \<rparr>"
    unfolding s dl_def r_def by (rule DCGANDiscriminator_init_power2 [OF assms(1) k])
  have dlen: "length dl = r + 2"
    by (simp add: dl_def)
  have dout: "layer_out_channels (dl ! i) = Some (n * 2 ^ i)" if "i \<le> r" for i
    unfolding dl_def by (rule discriminator_out_channels_nth [OF that])
  have dstep: "\<exists>a b. layer_out_channels (dl ! i) = Some a
                  \<and> layer_out_channels (dl ! Suc i) = Some b \<and> b = 2 * a" if "i < r" for i
    using dout [of i] dout [of "Suc i"] that by simp
  have dfirst: "layer_out_channels (dl ! 0) = Some n"
    using dout [of 0] by simp
  have disc: "\<exists>m ls. DCGANDiscriminator_init clog2 s ch n bn' nonlin' lastnl' = Inr m
            \<and> layers_of (disc_model m) = ls
            \<and> length ls = r + 2
            \<and> layer_out_channels (ls ! 0) = Some n
            \<and> (\<forall>i < r. \<exists>a b.
                  layer_out_channels (ls ! i) = Some a
                  \<and> layer_out_channels (ls ! Suc i) = Some b \<and> b = 2 * a)"
    using dinit dlen dstep dfirst by auto
  from gen disc show ?thesis
    unfolding r by (rule conjI)
qed

theorem channel_depth_progression_witness:
  "exact_on_powers (log 2) \<and> valid_config 100 32 3 64
   \<and> (\<exists>g ls. DCGANGenerator_init (log 2) 100 32 3 64 True None None = Inr g
            \<and> layers_of (gen_model g) = ls
            \<and> length ls = 4
            \<and> (\<forall>i < 2. \<exists>a b.
                  layer_out_channels (ls ! i) = Some a
                  \<and> layer_out_channels (ls ! Suc i) = Some b \<and> 2 * b = a)
            \<and> layer_out_channels (ls ! 2) = Some 64)
   \<and> (\<exists>m ls. DCGANDiscriminator_init (log 2) 32 3 64 True None None = Inr m
            \<and> layers_of (disc_model m) = ls
            \<and> length ls = 4
            \<and> layer_out_channels (ls ! 0) = Some 64
            \<and> (\<forall>i < 2. \<exists>a b.
                  layer_out_channels (ls ! i) = Some a
                  \<and> layer_out_channels (ls ! Suc i) = Some b \<and> b = 2 * a))"
  using channel_depth_progression [OF exact_on_powers_log valid_config_default,
      of True None None True None None]
    exact_on_powers_log valid_config_default
  by (simp add: num_repeats_32)

subsection \<open>C4: bias on the first and the last layer\<close>

text \<open>
  The specification has the bias always on in the first and the last layer of both
  models. With normalisation on, the generator's first convolution and the
  discriminator's last convolution are built with \<^verbatim>\<open>bias=use_bias\<close>, which is then off.
\<close>

theorem first_last_bias_counterexample:
  "layer_bias (generator_layers (DCGANGenerator_init (log 2) 100 32 3 64 True None None) ! 0)
     = Some False
   \<and> layer_bias (last (discriminator_layers
         (DCGANDiscriminator_init (log 2) 32 3 64 True None None))) = Some False"
  by (simp add: generator_default_32 discriminator_default_32 generator_layers_def
        discriminator_layers_def)

text \<open>
  C4, as the code has it: for every valid configuration the bias is always on in the
  last layer of the generator and in the first layer of the discriminator (the two
  layers next to the image); the first layer of the generator and the last layer of the
  discriminator carry a bias exactly when normalisation is off.
\<close>

theorem bias_of_first_and_last_layers:
  assumes "exact_on_powers clog2" and "valid_config e s ch n"
  shows "(\<exists>g ls. DCGANGenerator_init clog2 e s ch n bn nonlin lastnl = Inr g
            \<and> layers_of (gen_model g) = ls
            \<and> layer_bias (last ls) = Some True
            \<and> layer_bias (ls ! 0) = Some (\<not> bn))
       \<and> (\<exists>m ls. DCGANDiscriminator_init clog2 s ch n bn' nonlin' lastnl' = Inr m
            \<and> layers_of (disc_model m) = ls
            \<and> layer_bias (ls ! 0) = Some True
            \<and> layer_bias (last ls) = Some (\<not> bn'))"
proof -
  from assms(2) obtain k :: nat where s: "s = 2 ^ k" and k: "4 \<le> k"
    by (rule valid_config_power)
  show ?thesis
    unfolding s DCGANGenerator_init_power2 [OF assms(1) k]
      DCGANDiscriminator_init_power2 [OF assms(1) k]
    by simp
qed

theorem bias_of_first_and_last_layers_witness:
  "exact_on_powers (log 2) \<and> valid_config 100 32 3 64
   \<and> (\<exists>g ls. DCGANGenerator_init (log 2) 100 32 3 64 True None None = Inr g
            \<and> layers_of (gen_model g) = ls
            \<and> layer_bias (last ls) = Some True
            \<and> layer_bias (ls ! 0) = Some False)
   \<and> (\<exists>m ls. DCGANDiscriminator_init (log 2) 32 3 64 True None None = Inr m
            \<and> layers_of (disc_model m) = ls
            \<and> layer_bias (ls ! 0) = Some True
            \<and> layer_bias (last ls) = Some False)"
  using bias_of_first_and_last_layers [OF exact_on_powers_log valid_config_default,
      of True None None True None None]
    exact_on_powers_log valid_config_default
  by simp

subsection \<open>C9: the default activations\<close>

text \<open>
  C9: when the activation arguments are left unspecified (\<^verbatim>\<open>None\<close>), the intermediate
  activation of both builders is a leaky rectifier with negative slope 0.2, the final
  activation of the generator is tanh, and the final activation of the discriminator is
  the same leaky rectifier with slope 0.2, not a sigmoid. Each built model has
  \<open>repeats + 2\<close> layers, so the layers before the last, the first among them, are there
  and carry the intermediate activation. Leaving the arguments out is the same as
  passing these activations.
\<close>

theorem default_activations:
  assumes "exact_on_powers clog2" and "valid_config e s ch n"
  shows "(\<exists>g ls. DCGANGenerator_init clog2 e s ch n bn None None = Inr g
            \<and> layers_of (gen_model g) = ls
            \<and> length ls = nat (num_repeats s) + 2
            \<and> layer_activation (ls ! 0) = Some (LeakyReLU (2 / 10))
            \<and> (\<forall>l \<in> set (butlast ls). layer_activation l = Some (LeakyReLU (2 / 10)))
            \<and> layer_activation (last ls) = Some Tanh)
       \<and> (\<exists>m ls. DCGANDiscriminator_init clog2 s ch n bn' None None = Inr m
            \<and> layers_of (disc_model m) = ls
            \<and> length ls = nat (num_repeats s) + 2
            \<and> layer_activation (ls ! 0) = Some (LeakyReLU (2 / 10))
            \<and> (\<forall>l \<in> set (butlast ls). layer_activation l = Some (LeakyReLU (2 / 10)))
            \<and> layer_activation (last ls) = Some (LeakyReLU (2 / 10))
            \<and> layer_activation (last ls) \<noteq> Some Sigmoid)
       \<and> DCGANGenerator_init clog2 e s ch n bn None None
           = DCGANGenerator_init clog2 e s ch n bn (Some (LeakyReLU (2 / 10))) (Some Tanh)
       \<and> DCGANDiscriminator_init clog2 s ch n bn' None None
           = DCGANDiscriminator_init clog2 s ch n bn' (Some (LeakyReLU (2 / 10)))
               (Some (LeakyReLU (2 / 10)))"
proof -
  from assms(2) obtain k :: nat where s: "s = 2 ^ k" and k: "4 \<le> k"
    by (rule valid_config_power)
  have r: "nat (num_repeats (2 ^ k)) = k - 3"
    by (simp add: num_repeats_power2)
  have gen: "\<exists>g ls. DCGANGenerator_init clog2 e s ch n bn None None = Inr g
            \<and> layers_of (gen_model g) = ls
            \<and> length ls = nat (num_repeats s) + 2
            \<and> layer_activation (ls ! 0) = Some (LeakyReLU (2 / 10))
            \<and> (\<forall>l \<in> set (butlast ls). layer_activation l = Some (LeakyReLU (2 / 10)))
            \<and> layer_activation (last ls) = Some Tanh"
    unfolding s r DCGANGenerator_init_power2 [OF assms(1) k]
    by (auto simp add: butlast_append simp del: power_Suc)
  have disc: "\<exists>m ls. DCGANDiscriminator_init clog2 s ch n bn' None None = Inr m
            \<and> layers_of (disc_model m) = ls
            \<and> length ls = nat (num_repeats s) + 2
            \<and> layer_activation (ls ! 0) = Some (LeakyReLU (2 / 10))
            \<and> (\<forall>l \<in> set (butlast ls). layer_activation l = Some (LeakyReLU (2 / 10)))
            \<and> layer_activation (last ls) = Some (LeakyReLU (2 / 10))
            \<and> layer_activation (last ls) \<noteq> Some Sigmoid"
    unfolding s r DCGANDiscriminator_init_power2 [OF assms(1) k]
    by (auto simp add: butlast_append simp del: power_Suc)
  have eq1: "DCGANGenerator_init clog2 e s ch n bn None None
           = DCGANGenerator_init clog2 e s ch n bn (Some (LeakyReLU (2 / 10))) (Some Tanh)"
    by (simp add: DCGANGenerator_init_def)
  have eq2: "DCGANDiscriminator_init clog2 s ch n bn' None None
           = DCGANDiscriminator_init clog2 s ch n bn' (Some (LeakyReLU (2 / 10)))
               (Some (LeakyReLU (2 / 10)))"
    by (simp add: DCGANDiscriminator_init_def)
  from gen disc eq1 eq2 show ?thesis
    by (intro conjI)
qed

theorem default_activations_witness:
  "exact_on_powers (log 2) \<and> valid_config 100 32 3 64
   \<and> ((\<exists>g ls. DCGANGenerator_init (log 2) 100 32 3 64 True None None = Inr g
            \<and> layers_of (gen_model g) = ls
            \<and> length ls = nat (num_repeats 32) + 2
            \<and> layer_activation (ls ! 0) = Some (LeakyReLU (2 / 10))
            \<and> (\<forall>l \<in> set (butlast ls). layer_activation l = Some (LeakyReLU (2 / 10)))
            \<and> layer_activation (last ls) = Some Tanh)
       \<and> (\<exists>m ls. DCGANDiscriminator_init (log 2) 32 3 64 True None None = Inr m
            \<and> layers_of (disc_model m) = ls
            \<and> length ls = nat (num_repeats 32) + 2
            \<and> layer_activation (ls ! 0) = Some (LeakyReLU (2 / 10))
            \<and> (\<forall>l \<in> set (butlast ls). layer_activation l = Some (LeakyReLU (2 / 10)))
            \<and> layer_activation (last ls) = Some (LeakyReLU (2 / 10))
            \<and> layer_activation (last ls) \<noteq> Some Sigmoid)
       \<and> DCGANGenerator_init (log 2) 100 32 3 64 True None None
           = DCGANGenerator_init (log 2) 100 32 3 64 True (Some (LeakyReLU (2 / 10))) (Some Tanh)
       \<and> DCGANDiscriminator_init (log 2) 32 3 64 True None None
           = DCGANDiscriminator_init (log 2) 32 3 64 True (Some (LeakyReLU (2 / 10)))
               (Some (LeakyReLU (2 / 10))))"
proof (intro conjI [OF exact_on_powers_log] conjI [OF valid_config_default])
  show "(\<exists>g ls. DCGANGenerator_init (log 2) 100 32 3 64 True None None = Inr g
            \<and> layers_of (gen_model g) = ls
            \<and> length ls = nat (num_repeats 32) + 2
            \<and> layer_activation (ls ! 0) = Some (LeakyReLU (2 / 10))
            \<and> (\<forall>l \<in> set (butlast ls). layer_activation l = Some (LeakyReLU (2 / 10)))
            \<and> layer_activation (last ls) = Some Tanh)
       \<and> (\<exists>m ls. DCGANDiscriminator_init (log 2) 32 3 64 True None None = Inr m
            \<and> layers_of (disc_model m) = ls
            \<and> length ls = nat (num_repeats 32) + 2
            \<and> layer_activation (ls ! 0) = Some (LeakyReLU (2 / 10))
            \<and> (\<forall>l \<in> set (butlast ls). layer_activation l = Some (LeakyReLU (2 / 10)))
            \<and> layer_activation (last ls) = Some (LeakyReLU (2 / 10))
            \<and> layer_activation (last ls) \<noteq> Some Sigmoid)
       \<and> DCGANGenerator_init (log 2) 100 32 3 64 True None None
           = DCGANGenerator_init (log 2) 100 32 3 64 True (Some (LeakyReLU (2 / 10))) (Some Tanh)
       \<and> DCGANDiscriminator_init (log 2) 32 3 64 True None None
           = DCGANDiscriminator_init (log 2) 32 3 64 True (Some (LeakyReLU (2 / 10)))
               (Some (LeakyReLU (2 / 10)))"
    by (rule default_activations [OF exact_on_powers_log valid_config_default])
qed

subsection \<open>C2: which sizes the constructors refuse\<close>

text \<open>
  C2 says that construction fails exactly when the size is below 16 or not a power of
  two. The constructors test \<^verbatim>\<open>ceil(log2(size)) != log2(size)\<close> on doubles. The int
  \<open>2 ^ 53 + 1\<close> is not a power of two; its nearest double is \<open>2 ^ 53\<close>, whose logarithm
  is exactly 53, so both constructors accept it and return a model.
\<close>

theorem size_check_accepts_2_53_plus_1:
  assumes "exact_on_powers clog2"
  shows "\<not> power_of_two (2 ^ 53 + 1)
       \<and> long_as_double (2 ^ 53 + 1) = 2 ^ 53
       \<and> num_repeats (2 ^ 53 + 1) = 50
       \<and> (\<exists>g. DCGANGenerator_init clog2 e (2 ^ 53 + 1) ch n bn nonlin lastnl = Inr g)
       \<and> (\<exists>m. DCGANDiscriminator_init clog2 (2 ^ 53 + 1) ch n bn' nonlin' lastnl' = Inr m)"
proof -
  have a: "\<not> power_of_two (2 ^ 53 + 1)"
    using not_power_of_two_big by simp
  have b: "\<exists>g. DCGANGenerator_init clog2 e (2 ^ 53 + 1) ch n bn nonlin lastnl = Inr g"
    using generator_accepts [OF size_check_big [OF assms]] by simp
  have c: "\<exists>m. DCGANDiscriminator_init clog2 (2 ^ 53 + 1) ch n bn' nonlin' lastnl' = Inr m"
    using discriminator_accepts [OF size_check_big [OF assms]] by simp
  from a long_as_double_big num_repeats_big b c show ?thesis by (intro conjI)
qed

theorem size_check_accepts_2_53_plus_1_witness:
  "exact_on_powers (log 2)
   \<and> \<not> power_of_two (2 ^ 53 + 1)
   \<and> (\<exists>g. DCGANGenerator_init (log 2) 100 (2 ^ 53 + 1) 3 64 True None None = Inr g)
   \<and> (\<exists>m. DCGANDiscriminator_init (log 2) (2 ^ 53 + 1) 3 64 True None None = Inr m)"
  using size_check_accepts_2_53_plus_1 [OF exact_on_powers_log, of 100 3 64 True None None
      True None None]
    exact_on_powers_log
  by simp

subsection \<open>C10: a size that is not a power of two and is accepted\<close>

text \<open>
  C10: there is an integer size of at least 16 that is not a power of two and for which
  the size check of both builders, \<^verbatim>\<open>ceil(log2(size)) != log2(size)\<close> over doubles, does
  not raise.
\<close>

theorem non_power_of_two_accepted:
  assumes "exact_on_powers clog2"
  shows "\<exists>s. 16 \<le> s \<and> \<not> power_of_two s
       \<and> DCGANGenerator_init clog2 e s ch n bn nonlin lastnl \<noteq> Inl ConfigError
       \<and> DCGANDiscriminator_init clog2 s ch n bn' nonlin' lastnl' \<noteq> Inl ConfigError"
proof -
  from generator_accepts [OF size_check_big [OF assms]]
  obtain g where "DCGANGenerator_init clog2 e 9007199254740993 ch n bn nonlin lastnl = Inr g"
    by blast
  then have a: "DCGANGenerator_init clog2 e 9007199254740993 ch n bn nonlin lastnl
                  \<noteq> Inl ConfigError"
    by simp
  from discriminator_accepts [OF size_check_big [OF assms]]
  obtain m where "DCGANDiscriminator_init clog2 9007199254740993 ch n bn' nonlin' lastnl' = Inr m"
    by blast
  then have b: "DCGANDiscriminator_init clog2 9007199254740993 ch n bn' nonlin' lastnl'
                  \<noteq> Inl ConfigError"
    by simp
  have "(16::int) \<le> 9007199254740993"
    by simp
  with not_power_of_two_big a b show ?thesis
    by (intro exI [of _ 9007199254740993] conjI)
qed

theorem non_power_of_two_accepted_witness:
  "exact_on_powers (log 2)
   \<and> (\<exists>s. 16 \<le> s \<and> \<not> power_of_two s
       \<and> DCGANGenerator_init (log 2) 100 s 3 64 True None None \<noteq> Inl ConfigError
       \<and> DCGANDiscriminator_init (log 2) s 3 64 True None None \<noteq> Inl ConfigError)"
  using non_power_of_two_accepted [OF exact_on_powers_log, of 100 3 64 True None None
      True None None]
    exact_on_powers_log
  by simp

end
